theory Spec2Isabelle
  imports Main
begin

section \<open>Data model\<close>

text \<open>
  The exceptions the code can raise.  \<open>UnexpectedInput\<close> is the parser's syntax error,
  \<open>ASTXpathDefinitionError\<close> the error of the package,
  \<open>ASTNodeParentCollisionError\<close> the error of the node constructor; the other three are
  the Python run-time errors that the source could raise on inputs the grammar excludes.
\<close>

datatype error =
    UnexpectedInput
  | ASTXpathDefinitionError
  | IndexError
  | UnboundLocalError
  | AttributeError
  | ASTNodeParentCollisionError

text \<open>
  Modelled from the spec: the tree-node side (\<open>pyoak.node.ASTNode\<close>) is not part of the
  sources.  The spec lists what the core reads from a node: its type (an is-instance
  test against a type handle), the name of the parent field it is attached to, its index
  in that field, its parent (none at the root), its direct children in order, and its
  proper descendants depth first.  A type handle is either the base type of all nodes or a
  named class; a node carries the names of its class and of that class's ancestors.
\<close>

datatype ast_class = ASTNode | NodeClass string

datatype subtree =
  Subtree (class_names: "string list") (child_fields: "(string \<times> int option \<times> subtree) list")

text \<open>
  A node as the matcher sees it: the subtree below it together with the link to its
  parent.  \<open>TreeRoot\<close> has no parent; \<open>Attached p f i t\<close> is the child \<open>t\<close> of \<open>p\<close> in
  field \<open>f\<close> at index \<open>i\<close>.
\<close>

datatype ast_node =
    TreeRoot subtree
  | Attached ast_node string "int option" subtree

fun node_subtree :: "ast_node \<Rightarrow> subtree" where
  "node_subtree (TreeRoot t) = t"
| "node_subtree (Attached p f i t) = t"

fun node_parent :: "ast_node \<Rightarrow> ast_node option" where
  "node_parent (TreeRoot t) = None"
| "node_parent (Attached p f i t) = Some p"

fun node_parent_field :: "ast_node \<Rightarrow> string option" where
  "node_parent_field (TreeRoot t) = None"
| "node_parent_field (Attached p f i t) = Some f"

fun node_parent_index :: "ast_node \<Rightarrow> int option" where
  "node_parent_index (TreeRoot t) = None"
| "node_parent_index (Attached p f i t) = i"

fun isinstance :: "ast_node \<Rightarrow> ast_class \<Rightarrow> bool" where
  "isinstance n ASTNode = True"
| "isinstance n (NodeClass c) = (c \<in> set (class_names (node_subtree n)))"

fun attach :: "ast_node \<Rightarrow> string \<times> int option \<times> subtree \<Rightarrow> ast_node" where
  "attach p (f, i, t) = Attached p f i t"

definition get_child_nodes :: "ast_node \<Rightarrow> ast_node list" where
  "get_child_nodes n = map (attach n) (child_fields (node_subtree n))"

fun ancestors :: "ast_node \<Rightarrow> ast_node list" where
  "ancestors (TreeRoot t) = []"
| "ancestors (Attached p f i t) = p # ancestors p"

fun descendants :: "ast_node \<Rightarrow> subtree \<Rightarrow> ast_node list"
  and descendants_fields :: "ast_node \<Rightarrow> (string \<times> int option \<times> subtree) list \<Rightarrow> ast_node list"
where
  "descendants n (Subtree cs kids) = descendants_fields n kids"
| "descendants_fields n [] = []"
| "descendants_fields n (k # kids) =
     (attach n k # descendants (attach n k) (snd (snd k))) @ descendants_fields n kids"

definition dfs :: "bool \<Rightarrow> ast_node \<Rightarrow> ast_node list" where
  "dfs skip_self n = (if skip_self then [] else [n]) @ descendants n (node_subtree n)"

record ASTXpathElement =
  ast_class :: ast_class
  parent_field :: "string option"
  parent_index :: "int option"
  anywhere :: bool

section \<open>Bottom-up matcher\<close>

text \<open>
  \<open>match_node_xpath\<close> is \<open>_match_node_xpath\<close>; \<open>elements[0]\<close> on an empty list
  raises \<open>IndexError\<close>.  \<open>match_ancestors\<close> is its loop over \<open>node.ancestors()\<close>,
  which returns at the first ancestor that matches the tail.
\<close>

definition match_node_element :: "ast_node \<Rightarrow> ASTXpathElement \<Rightarrow> bool" where
  "match_node_element node element =
     (if isinstance node (ast_class element)
         \<and> (parent_field element = None
             \<or> (node_parent_field node \<noteq> None \<and> parent_field element = node_parent_field node))
         \<and> (parent_index element = None \<or> parent_index element = node_parent_index node)
      then True else False)"

fun match_node_xpath :: "ast_node \<Rightarrow> ASTXpathElement list \<Rightarrow> error + bool"
  and match_ancestors :: "ast_node list \<Rightarrow> ASTXpathElement list \<Rightarrow> error + bool"
where
  "match_node_xpath node [] = Inl IndexError"
| "match_node_xpath node (element # tail) =
     (if \<not> match_node_element node element then Inr False
      else if length tail = 0 then Inr (anywhere element \<or> node_parent node = None)
      else (case node_parent node of
              None \<Rightarrow> Inr False
            | Some parent \<Rightarrow>
                if anywhere element then match_ancestors (ancestors node) tail
                else match_node_xpath parent tail))"
| "match_ancestors [] tail = Inr False"
| "match_ancestors (ancestor # rest) tail =
     (case match_node_xpath ancestor tail of
        Inl e \<Rightarrow> Inl e
      | Inr True \<Rightarrow> Inr True
      | Inr False \<Rightarrow> match_ancestors rest tail)"

section \<open>Top-down search\<close>

text \<open>
  The work list of \<open>findall\<close> starts with the helper node \<open>_DUMMY_XPATH_ROOT(root)\<close>,
  a node of a class of its own that holds the root in its only field, \<open>child\<close>.  The
  helper is built by the node constructor of \<open>pyoak.node\<close> (not in the sources), which
  attaches the child and refuses a child that already has a parent
  (\<open>ASTNodeParentCollisionError\<close>).  During the search the root is therefore the child
  of the helper in the field \<open>child\<close>, without an index, and every node below it has the
  helper as its outermost ancestor.
\<close>

definition DUMMY_XPATH_ROOT :: "subtree \<Rightarrow> subtree" where
  "DUMMY_XPATH_ROOT child = Subtree [''_DUMMY_XPATH_ROOT''] [(''child'', None, child)]"

fun new_DUMMY_XPATH_ROOT :: "ast_node \<Rightarrow> error + ast_node" where
  "new_DUMMY_XPATH_ROOT (TreeRoot t) = Inr (TreeRoot (DUMMY_XPATH_ROOT t))"
| "new_DUMMY_XPATH_ROOT (Attached p f i t) = Inl ASTNodeParentCollisionError"

text \<open>
  \<open>expand\<close> is the body of the inner loop for one entry of the work list;
  \<open>findall_loop\<close> is the outer loop, where \<open>new_work\<close> is unbound (\<open>None\<close>) until
  the first element has been processed.
\<close>

definition expand :: "ASTXpathElement \<Rightarrow> ast_node \<Rightarrow> ast_node list" where
  "expand el node =
     (if anywhere el then filter (\<lambda>n. match_node_element n el) (dfs True node)
      else filter (\<lambda>n. match_node_element n el) (get_child_nodes node))"

fun findall_loop ::
  "ASTXpathElement list \<Rightarrow> ast_node list \<Rightarrow> ast_node list option \<Rightarrow> ast_node list option" where
  "findall_loop [] work new_work = new_work"
| "findall_loop (el # els) work new_work =
     (let new_work' = concat (map (expand el) work)
      in findall_loop els new_work' (Some new_work'))"

text \<open>
  The generator yields the node objects themselves.  A node object is denoted by the node
  it is in the caller's tree: \<open>caller_node\<close> takes the helper off the top of the chain of
  parents, so that the root is again \<open>TreeRoot\<close>.
\<close>

fun caller_node :: "ast_node \<Rightarrow> ast_node" where
  "caller_node (TreeRoot t) = TreeRoot t"
| "caller_node (Attached (TreeRoot h) f i t) = TreeRoot t"
| "caller_node (Attached (Attached p f' i' t') f i t) = Attached (caller_node (Attached p f' i' t')) f i t"

definition findall_elements :: "ASTXpathElement list \<Rightarrow> ast_node \<Rightarrow> error + ast_node list" where
  "findall_elements els root =
     (case new_DUMMY_XPATH_ROOT root of
        Inl e \<Rightarrow> Inl e
      | Inr helper \<Rightarrow>
          (case findall_loop els [helper] None of
             None \<Rightarrow> Inl UnboundLocalError
           | Some new_work \<Rightarrow> Inr (map caller_node new_work)))"

section \<open>Grammar and parser\<close>

text \<open>
  The terminals of \<open>xpath_grammar\<close>: the four punctuation marks, \<open>CNAME\<close> (a letter or
  underscore followed by letters, digits and underscores) and \<open>DIGIT\<close> (one decimal
  digit).  A token carries the text it matched.  White space is ignored between tokens.
\<close>

datatype token = SLASH | AT | LSQB | RSQB | CNAME string | DIGIT string

definition is_WS :: "char \<Rightarrow> bool" where
  "is_WS c = (c \<in> set [CHR '' '', CHR 0x09, CHR 0x0C, CHR 0x0D, CHR 0x0A])"

definition is_DIGIT :: "char \<Rightarrow> bool" where
  "is_DIGIT c = (c \<in> set ''0123456789'')"

definition is_LETTER :: "char \<Rightarrow> bool" where
  "is_LETTER c = (c \<in> set ''ABCDEFGHIJKLMNOPQRSTUVWXYZabcdefghijklmnopqrstuvwxyz'')"

definition is_CNAME_start :: "char \<Rightarrow> bool" where
  "is_CNAME_start c = (c = CHR ''_'' \<or> is_LETTER c)"

definition is_CNAME_char :: "char \<Rightarrow> bool" where
  "is_CNAME_char c = (c = CHR ''_'' \<or> is_LETTER c \<or> is_DIGIT c)"

fun emit :: "token \<Rightarrow> error + token list \<Rightarrow> error + token list" where
  "emit t (Inl e) = Inl e"
| "emit t (Inr ts) = Inr (t # ts)"

function lexer :: "string \<Rightarrow> error + token list" where
  "lexer [] = Inr []"
| "lexer (c # cs) =
     (if is_WS c then lexer cs
      else if c = CHR ''/'' then emit SLASH (lexer cs)
      else if c = CHR ''@'' then emit AT (lexer cs)
      else if c = CHR ''['' then emit LSQB (lexer cs)
      else if c = CHR '']'' then emit RSQB (lexer cs)
      else if is_CNAME_start c then
        emit (CNAME (c # takeWhile is_CNAME_char cs)) (lexer (dropWhile is_CNAME_char cs))
      else if is_DIGIT c then emit (DIGIT [c]) (lexer cs)
      else Inl UnexpectedInput)"
  by pat_completeness auto
termination
  by (relation "measure length") (auto simp: less_Suc_eq_le length_dropWhile_le)

text \<open>
  The values the transformer's callbacks pass upwards: a resolved type, an index, or a
  field name.  A raw segment is the triple \<open>(parent_field, parent_index, ast_class)\<close>
  returned by \<open>element\<close> and \<open>self\<close>.
\<close>

datatype arg = TypeArg ast_class | IntArg int | StrArg string

type_synonym raw_segment = "string option \<times> int option \<times> ast_class option"

text \<open>
  \<open>check_and_get_ast_node_type\<close> lives in \<open>pyoak.match.helpers\<close>, outside the sources; the
  registry of node types it consults is the parameter \<open>types\<close> of everything below.
\<close>

type_synonym type_registry = "string \<Rightarrow> ast_class option"

definition digit_value :: "char \<Rightarrow> int" where
  "digit_value c = int (of_char c) - 48"

definition py_int :: "string \<Rightarrow> int" where
  "py_int s = foldl (\<lambda>acc c. 10 * acc + digit_value c) 0 s"

definition class_spec :: "type_registry \<Rightarrow> string list \<Rightarrow> error + ast_class" where
  "class_spec types args =
     (case args of
        [] \<Rightarrow> Inl IndexError
      | name # _ \<Rightarrow> (case types name of None \<Rightarrow> Inl ASTXpathDefinitionError | Some ty \<Rightarrow> Inr ty))"

definition index_spec :: "string list \<Rightarrow> int" where
  "index_spec args = (if length args = 0 then - 1 else py_int (args ! 0))"

definition field_spec :: "string list \<Rightarrow> error + string" where
  "field_spec args = (case args of [] \<Rightarrow> Inl IndexError | name # _ \<Rightarrow> Inr name)"

fun element_loop ::
  "arg list \<Rightarrow> ast_class \<times> string option \<times> int option \<Rightarrow> ast_class \<times> string option \<times> int option" where
  "element_loop [] acc = acc"
| "element_loop (TypeArg t # args) (ty, pf, pi) = element_loop args (t, pf, pi)"
| "element_loop (IntArg i # args) (ty, pf, pi) =
     element_loop args (ty, pf, if i > - 1 then Some i else None)"
| "element_loop (StrArg s # args) (ty, pf, pi) = element_loop args (ty, Some s, pi)"

definition element :: "arg list \<Rightarrow> raw_segment" where
  "element args =
     (if length args = 0 then (None, None, None)
      else (case element_loop args (ASTNode, None, None) of
              (ty, pf, pi) \<Rightarrow> (pf, pi, Some ty)))"

definition self :: "arg list \<Rightarrow> raw_segment" where
  "self args = element args"

fun parse_field_spec :: "token list \<Rightarrow> error + arg list \<times> token list" where
  "parse_field_spec (AT # CNAME name # ts) =
     (case field_spec [name] of Inl e \<Rightarrow> Inl e | Inr f \<Rightarrow> Inr ([StrArg f], ts))"
| "parse_field_spec (AT # ts) = Inl UnexpectedInput"
| "parse_field_spec ts = Inr ([], ts)"

fun parse_DIGITs :: "token list \<Rightarrow> string list \<times> token list" where
  "parse_DIGITs (DIGIT d # ts) = (case parse_DIGITs ts of (ds, rest) \<Rightarrow> (d # ds, rest))"
| "parse_DIGITs ts = ([], ts)"

fun parse_index_spec :: "token list \<Rightarrow> error + arg list \<times> token list" where
  "parse_index_spec (LSQB # ts) =
     (case parse_DIGITs ts of
        (ds, RSQB # rest) \<Rightarrow> Inr ([IntArg (index_spec ds)], rest)
      | _ \<Rightarrow> Inl UnexpectedInput)"
| "parse_index_spec ts = Inr ([], ts)"

fun parse_class_spec :: "type_registry \<Rightarrow> token list \<Rightarrow> error + arg list \<times> token list" where
  "parse_class_spec types (CNAME name # ts) =
     (case class_spec types [name] of Inl e \<Rightarrow> Inl e | Inr t \<Rightarrow> Inr ([TypeArg t], ts))"
| "parse_class_spec types ts = Inr ([], ts)"

text \<open>
  One segment: \<open>"/" field_spec? index_spec? class_spec?\<close>.  The result says whether a
  class was given, which is what tells \<open>self\<close> from \<open>element\<close> at the end of the input.
\<close>

fun parse_segment :: "type_registry \<Rightarrow> token list \<Rightarrow> error + (arg list \<times> bool) \<times> token list" where
  "parse_segment types (SLASH # ts) =
     (case parse_field_spec ts of
        Inl e \<Rightarrow> Inl e
      | Inr (a1, ts1) \<Rightarrow>
          (case parse_index_spec ts1 of
             Inl e \<Rightarrow> Inl e
           | Inr (a2, ts2) \<Rightarrow>
               (case parse_class_spec types ts2 of
                  Inl e \<Rightarrow> Inl e
                | Inr (a3, ts3) \<Rightarrow> Inr ((a1 @ a2 @ a3, a3 \<noteq> []), ts3))))"
| "parse_segment types ts = Inl UnexpectedInput"

lemma parse_DIGITs_length: "parse_DIGITs ts = (ds, rest) \<Longrightarrow> length rest \<le> length ts"
  by (induction ts arbitrary: ds rest rule: parse_DIGITs.induct) (auto split: prod.splits)

lemma parse_field_spec_length: "parse_field_spec ts = Inr (a, rest) \<Longrightarrow> length rest \<le> length ts"
  by (induction ts rule: parse_field_spec.induct) (auto simp: field_spec_def)

lemma parse_index_spec_length: "parse_index_spec ts = Inr (a, rest) \<Longrightarrow> length rest \<le> length ts"
  by (induction ts rule: parse_index_spec.induct)
     (auto split: prod.splits list.splits token.splits dest: parse_DIGITs_length)

lemma parse_class_spec_length:
  "parse_class_spec types ts = Inr (a, rest) \<Longrightarrow> length rest \<le> length ts"
  by (induction types ts rule: parse_class_spec.induct) (auto split: sum.splits)

lemma parse_segment_length:
  "parse_segment types ts = Inr (r, rest) \<Longrightarrow> length rest < length ts"
  by (induction types ts rule: parse_segment.induct)
     (auto split: sum.splits prod.splits
           dest!: parse_field_spec_length parse_index_spec_length parse_class_spec_length)

text \<open>The start rule \<open>xpath: element* self\<close>.\<close>

function parse_xpath :: "type_registry \<Rightarrow> token list \<Rightarrow> error + raw_segment list" where
  "parse_xpath types ts =
     (case parse_segment types ts of
        Inl e \<Rightarrow> Inl e
      | Inr ((args, has_class), rest) \<Rightarrow>
          if rest = [] then (if has_class then Inr [self args] else Inl UnexpectedInput)
          else (case parse_xpath types rest of
                  Inl e \<Rightarrow> Inl e
                | Inr segments \<Rightarrow> Inr (element args # segments)))"
  by pat_completeness auto
termination
  by (relation "measure (\<lambda>(types, ts). length ts)") (auto dest: parse_segment_length)

declare parse_xpath.simps [simp del]

section \<open>Element compiler\<close>

text \<open>
  \<open>ret[-1] = ASTXpathElement(ret[-1].ast_class, ret[-1].parent_field,
  ret[-1].parent_index, True)\<close>; on an empty list Python raises \<open>IndexError\<close>.
\<close>

definition set_last_anywhere :: "ASTXpathElement list \<Rightarrow> error + ASTXpathElement list" where
  "set_last_anywhere ret =
     (if ret = [] then Inl IndexError
      else Inr (butlast ret @
                [\<lparr>ast_class = ast_class (last ret), parent_field = parent_field (last ret),
                  parent_index = parent_index (last ret), anywhere = True\<rparr>]))"

text \<open>
  \<open>XPathTransformer.xpath\<close>.  The \<open>for\<close> loop and the inner \<open>while\<close> loop draw from
  the same iterator over the reversed arguments: \<open>xpath_for\<close> is the head of the
  \<open>for\<close> loop with the segments still to come, \<open>xpath_while\<close> the head of the
  \<open>while\<close> loop with the segment in hand.
\<close>

fun xpath_for :: "raw_segment list \<Rightarrow> ASTXpathElement list \<Rightarrow> error + ASTXpathElement list"
  and xpath_while ::
    "raw_segment \<Rightarrow> raw_segment list \<Rightarrow> ASTXpathElement list \<Rightarrow> error + ASTXpathElement list"
where
  "xpath_for [] ret = Inr ret"
| "xpath_for (el # remaining) ret = xpath_while el remaining ret"
| "xpath_while (pf, pi, Some cls) remaining ret =
     xpath_for remaining
       (ret @ [\<lparr>ast_class = cls, parent_field = pf, parent_index = pi, anywhere = False\<rparr>])"
| "xpath_while (pf, pi, None) [] ret = set_last_anywhere ret"
| "xpath_while (pf, pi, None) (next_el # remaining) ret =
     (case set_last_anywhere ret of
        Inl e \<Rightarrow> Inl e
      | Inr ret' \<Rightarrow> xpath_while next_el remaining ret')"

definition xpath :: "raw_segment list \<Rightarrow> error + ASTXpathElement list" where
  "xpath args = xpath_for (rev args) []"

text \<open>\<open>xpath_parser.parse\<close>: lexer, parser and the transformer's start callback.\<close>

definition xpath_parser_parse :: "type_registry \<Rightarrow> string \<Rightarrow> error + ASTXpathElement list" where
  "xpath_parser_parse types s =
     (case lexer s of
        Inl e \<Rightarrow> Inl e
      | Inr ts \<Rightarrow> (case parse_xpath types ts of Inl e \<Rightarrow> Inl e | Inr segments \<Rightarrow> xpath segments))"

section \<open>Path object and cache\<close>

text \<open>
  An \<open>ASTXpath\<close> object has two attributes, unset (\<open>None\<close>) until \<open>__init__\<close> assigns
  them.  The state of the module is the cache, a dictionary from source strings to object
  references, and the store of the objects allocated so far.
\<close>

record ASTXpath =
  elements_reversed :: "ASTXpathElement list option"
  elements :: "ASTXpathElement list option"

record state =
  AST_XPATH_CACHE :: "string \<rightharpoonup> nat"
  objects :: "nat \<rightharpoonup> ASTXpath"
  next_ref :: nat

definition initial_state :: state where
  "initial_state = \<lparr>AST_XPATH_CACHE = Map.empty, objects = Map.empty, next_ref = 0\<rparr>"

definition startswith :: "string \<Rightarrow> string \<Rightarrow> bool" where
  "startswith s prefix = (take (length prefix) s = prefix)"

definition absolute_xpath :: "string \<Rightarrow> string" where
  "absolute_xpath xp = (if \<not> startswith xp ''/'' then ''//'' @ xp else xp)"

text \<open>\<open>ASTXpath.__new__\<close>: look the source string up, allocate a blank object if it is new.\<close>

definition ASTXpath_new :: "state \<Rightarrow> string \<Rightarrow> nat \<times> state" where
  "ASTXpath_new st xp =
     (case AST_XPATH_CACHE st xp of
        None \<Rightarrow>
          (next_ref st,
           st\<lparr>AST_XPATH_CACHE := (AST_XPATH_CACHE st)(xp \<mapsto> next_ref st),
              objects := (objects st)(next_ref st \<mapsto> \<lparr>elements_reversed = None, elements = None\<rparr>),
              next_ref := next_ref st + 1\<rparr>)
      | Some r \<Rightarrow> (r, st))"

text \<open>
  \<open>ASTXpath.__init__\<close> on the object at reference \<open>r\<close>: every exception of the parser
  leaves as \<open>ASTXpathDefinitionError\<close>, before either attribute is assigned.
\<close>

definition ASTXpath_init :: "type_registry \<Rightarrow> state \<Rightarrow> nat \<Rightarrow> string \<Rightarrow> (error + unit) \<times> state" where
  "ASTXpath_init types st r xp =
     (case xpath_parser_parse types (absolute_xpath xp) of
        Inl e \<Rightarrow> (Inl ASTXpathDefinitionError, st)
      | Inr ers \<Rightarrow>
          (Inr (),
           st\<lparr>objects := (objects st)(r \<mapsto> \<lparr>elements_reversed = Some ers, elements = Some (rev ers)\<rparr>)\<rparr>))"

text \<open>
  The expression \<open>ASTXpath(xpath)\<close>: Python calls \<open>__new__\<close>, then \<open>__init__\<close> on the
  object \<open>__new__\<close> returned, and the expression has that object as its value unless
  \<open>__init__\<close> raised.
\<close>

definition ASTXpath_call :: "type_registry \<Rightarrow> state \<Rightarrow> string \<Rightarrow> (error + nat) \<times> state" where
  "ASTXpath_call types st xp =
     (case ASTXpath_new st xp of
        (r, st1) \<Rightarrow>
          (case ASTXpath_init types st1 r xp of
             (Inl e, st2) \<Rightarrow> (Inl e, st2)
           | (Inr u, st2) \<Rightarrow> (Inr r, st2)))"

definition ASTXpath_match :: "ASTXpath \<Rightarrow> ast_node \<Rightarrow> error + bool" where
  "ASTXpath_match path node =
     (case elements_reversed path of
        None \<Rightarrow> Inl AttributeError
      | Some ers \<Rightarrow> match_node_xpath node ers)"

definition ASTXpath_findall :: "ASTXpath \<Rightarrow> ast_node \<Rightarrow> error + ast_node list" where
  "ASTXpath_findall path root =
     (case elements path of
        None \<Rightarrow> Inl AttributeError
      | Some els \<Rightarrow> findall_elements els root)"

section \<open>Auxiliary notions for the proofs\<close>

text \<open>
  Membership of a node in the tree whose root holds the subtree \<open>r\<close>: every link up to
  the root attaches a subtree that the parent really has as a child, and the chain ends
  at \<open>TreeRoot r\<close>.
\<close>

fun in_tree :: "subtree \<Rightarrow> ast_node \<Rightarrow> bool" where
  "in_tree r (TreeRoot t) = (t = r)"
| "in_tree r (Attached p f i t) = ((f, i, t) \<in> set (child_fields (node_subtree p)) \<and> in_tree r p)"

text \<open>\<open>below h n\<close>: the node \<open>n\<close> is a proper descendant of \<open>h\<close>.\<close>

fun below :: "ast_node \<Rightarrow> ast_node \<Rightarrow> bool" where
  "below h (TreeRoot t) = False"
| "below h (Attached p f i t) =
     ((f, i, t) \<in> set (child_fields (node_subtree p)) \<and> (p = h \<or> below h p))"

text \<open>
  What the bottom-up matcher decides on a non-empty element list, as a predicate; it is
  the link between \<open>match_node_xpath\<close> and the top-down search in the proofs.
\<close>

fun matches :: "ast_node \<Rightarrow> ASTXpathElement list \<Rightarrow> bool" where
  "matches n [] = False"
| "matches n [e] = (match_node_element n e \<and> (anywhere e \<or> node_parent n = None))"
| "matches n (e # e' # es) =
     (match_node_element n e \<and>
      (if anywhere e then (\<exists>a \<in> set (ancestors n). matches a (e' # es))
       else (case node_parent n of None \<Rightarrow> False | Some p \<Rightarrow> matches p (e' # es))))"

text \<open>A raw segment is class-bearing when its third component is set.\<close>

definition has_class :: "raw_segment \<Rightarrow> bool" where
  "has_class seg = (snd (snd seg) \<noteq> None)"

text \<open>
  The element compiler in the words of the specification: the raw segments are taken
  from the self segment towards the start of the path; a class-bearing segment emits an
  element with \<open>anywhere = False\<close>; a placeholder emits nothing and sets
  \<open>anywhere\<close> on the element emitted last.
\<close>

definition mark_anywhere :: "ASTXpathElement list \<Rightarrow> ASTXpathElement list" where
  "mark_anywhere ret = (if ret = [] then [] else butlast ret @ [(last ret)\<lparr>anywhere := True\<rparr>])"

fun compile_step :: "ASTXpathElement list \<Rightarrow> raw_segment \<Rightarrow> ASTXpathElement list" where
  "compile_step ret (pf, pi, Some cls) =
     ret @ [\<lparr>ast_class = cls, parent_field = pf, parent_index = pi, anywhere = False\<rparr>]"
| "compile_step ret (pf, pi, None) = mark_anywhere ret"

definition element_compiler_spec :: "raw_segment list \<Rightarrow> ASTXpathElement list" where
  "element_compiler_spec args = foldl compile_step [] (rev args)"

text \<open>
  \<open>helper_view n\<close> is the node \<open>n\<close> of the caller's tree as the search sees it, with
  the helper attached above the root; \<open>root_subtree\<close> is the subtree at the top of the
  chain of parents.
\<close>

fun helper_view :: "ast_node \<Rightarrow> ast_node" where
  "helper_view (TreeRoot t) = Attached (TreeRoot (DUMMY_XPATH_ROOT t)) ''child'' None t"
| "helper_view (Attached p f i t) = Attached (helper_view p) f i t"

fun root_subtree :: "ast_node \<Rightarrow> subtree" where
  "root_subtree (TreeRoot t) = t"
| "root_subtree (Attached p f i t) = root_subtree p"

text \<open>
  An element that the helper alone passes as the last one of a list: any type, no filter,
  not anywhere, hence a node without parent.
\<close>

definition helper_element :: ASTXpathElement where
  "helper_element = \<lparr>ast_class = ASTNode, parent_field = None, parent_index = None, anywhere = False\<rparr>"

text \<open>The work list of \<open>findall\<close> after the loop has run through the given elements.\<close>

fun work_after :: "ASTXpathElement list \<Rightarrow> ast_node list \<Rightarrow> ast_node list" where
  "work_after [] w = w"
| "work_after (e # es) w = work_after es (concat (map (expand e) w))"

text \<open>The one element of the path \<open>/@child Root\<close>.\<close>

section \<open>Example inputs\<close>

text \<open>A registry of three node classes and a small tree, used to run the theorems below.\<close>

definition example_types :: type_registry where
  "example_types = [''Root'' \<mapsto> NodeClass ''Root'', ''A'' \<mapsto> NodeClass ''A'', ''B'' \<mapsto> NodeClass ''B'']"

definition inner_subtree :: subtree where
  "inner_subtree = Subtree [''Root''] []"

definition middle_subtree :: subtree where
  "middle_subtree = Subtree [''A''] [(''child'', None, inner_subtree)]"

definition example_tree :: subtree where
  "example_tree = Subtree [''Root''] [(''body'', Some 0, middle_subtree), (''body'', Some 1, Subtree [''B''] [])]"

definition middle_node :: ast_node where
  "middle_node = Attached (TreeRoot example_tree) ''body'' (Some 0) middle_subtree"

definition inner_node :: ast_node where
  "inner_node = Attached middle_node ''child'' None inner_subtree"

definition root_element :: ASTXpathElement where
  "root_element = \<lparr>ast_class = NodeClass ''Root'', parent_field = None, parent_index = None, anywhere = False\<rparr>"

definition example_segments :: "raw_segment list" where
  "example_segments =
     [(None, None, None), (None, None, None), (None, None, Some (NodeClass ''A'')),
      (None, None, None), (Some ''f'', Some 2, Some (NodeClass ''B''))]"

definition example_path :: ASTXpath where
  "example_path =
     \<lparr>elements_reversed = Some
        [\<lparr>ast_class = NodeClass ''Root'', parent_field = None, parent_index = None, anywhere = True\<rparr>,
         \<lparr>ast_class = NodeClass ''A'', parent_field = None, parent_index = None, anywhere = True\<rparr>],
      elements = Some
        [\<lparr>ast_class = NodeClass ''A'', parent_field = None, parent_index = None, anywhere = True\<rparr>,
         \<lparr>ast_class = NodeClass ''Root'', parent_field = None, parent_index = None, anywhere = True\<rparr>]\<rparr>"

definition example_state :: state where
  "example_state = snd (ASTXpath_call example_types initial_state ''A//Root'')"

definition failed_state :: state where
  "failed_state = snd (ASTXpath_call example_types initial_state ''/@[0]'')"

definition example_state2 :: state where
  "example_state2 = snd (ASTXpath_call example_types initial_state (''//'' @ ''A//Root''))"


definition child_root_element :: ASTXpathElement where
  "child_root_element =
     \<lparr>ast_class = NodeClass ''Root'', parent_field = Some ''child'', parent_index = None, anywhere = False\<rparr>"

section \<open>Lemmas\<close>

lemmas lexer_defs = is_WS_def is_DIGIT_def is_LETTER_def is_CNAME_start_def is_CNAME_char_def

lemmas parser_defs = xpath_parser_parse_def parse_xpath.simps class_spec_def field_spec_def
  index_spec_def element_def self_def xpath_def set_last_anywhere_def py_int_def digit_value_def

lemma node_subtree_attach: "node_subtree (attach h k) = snd (snd k)"
  by (cases k) simp

lemma attach_eq: "(Attached p f i t = attach h k) = (p = h \<and> k = (f, i, t))"
  by (cases k) auto

lemma below_unfold:
  "below h n = (\<exists>k \<in> set (child_fields (node_subtree h)). n = attach h k \<or> below (attach h k) n)"
proof (induction n)
  case (TreeRoot t)
  show ?case by (auto simp: attach_eq)
next
  case (Attached p f i t)
  show ?case
    apply (simp add: attach_eq)
    using Attached.IH by blast
qed

lemma set_descendants:
  "set (descendants h t) = {n. \<exists>k \<in> set (child_fields t). n = attach h k \<or> below (attach h k) n}"
  "set (descendants_fields h kids) = {n. \<exists>k \<in> set kids. n = attach h k \<or> below (attach h k) n}"
proof (induction h t and h kids rule: descendants_descendants_fields.induct)
  case (1 n cs kids)
  then show ?case by simp
next
  case (2 n)
  then show ?case by simp
next
  case (3 n k kids)
  have "set (descendants (attach n k) (snd (snd k))) = {m. below (attach n k) m}"
    using 3(1) below_unfold[of "attach n k"] by (simp add: node_subtree_attach)
  then show ?case using 3(2) by auto
qed

lemma set_dfs_skip: "set (dfs True h) = {n. below h n}"
  using below_unfold[of h] by (simp add: dfs_def set_descendants)

lemma set_dfs_all: "set (dfs False h) = insert h {n. below h n}"
  using below_unfold[of h] by (simp add: dfs_def set_descendants)

lemma in_tree_root_or_below: "in_tree r n = (n = TreeRoot r \<or> below (TreeRoot r) n)"
  by (induction n) auto

lemma below_ancestor: "below h n \<Longrightarrow> h \<in> set (ancestors n)"
  by (induction n) auto

lemma in_tree_below_iff: "in_tree r n \<Longrightarrow> below h n = (h \<in> set (ancestors n))"
  by (induction n) auto

lemma in_tree_ancestor: "in_tree r n \<Longrightarrow> a \<in> set (ancestors n) \<Longrightarrow> in_tree r a"
  by (induction n) auto

lemma in_tree_below: "in_tree r h \<Longrightarrow> below h n \<Longrightarrow> in_tree r n"
  by (induction n) auto

lemma set_get_child_nodes:
  "set (get_child_nodes h) = {n. \<exists>f i t. n = Attached h f i t \<and> (f, i, t) \<in> set (child_fields (node_subtree h))}"
  by (auto simp: get_child_nodes_def attach_eq image_iff)

lemma in_tree_child_iff: "in_tree r n \<Longrightarrow> (n \<in> set (get_child_nodes h)) = (node_parent n = Some h)"
  by (cases n) (auto simp: set_get_child_nodes)

lemma in_tree_child: "in_tree r h \<Longrightarrow> n \<in> set (get_child_nodes h) \<Longrightarrow> in_tree r n"
  by (auto simp: set_get_child_nodes)

lemma in_tree_no_parent: "in_tree r n \<Longrightarrow> (node_parent n = None) = (n = TreeRoot r)"
  by (cases n) auto

lemma match_node_xpath_matches:
  "es \<noteq> [] \<Longrightarrow> match_node_xpath n es = Inr (matches n es)"
  "es \<noteq> [] \<Longrightarrow> match_ancestors as es = Inr (\<exists>a \<in> set as. matches a es)"
proof (induction n es and as es rule: match_node_xpath_match_ancestors.induct)
  case (1 node)
  then show ?case by simp
next
  case (2 node element tail)
  show ?case
  proof (cases tail)
    case Nil
    then show ?thesis by simp
  next
    case (Cons e' es)
    then show ?thesis using 2 by (cases node) (auto split: option.splits)
  qed
next
  case (3 tail)
  then show ?case by simp
next
  case (4 ancestor rest tail)
  then show ?case by (auto split: sum.splits bool.splits)
qed

lemma matches_step:
  assumes "in_tree r n" "es \<noteq> []"
  shows "matches n (e # es) =
           (match_node_element n e \<and>
            (\<exists>m. in_tree r m \<and> matches m es \<and>
                 (if anywhere e then below m n else n \<in> set (get_child_nodes m))))"
proof (cases es)
  case Nil
  with assms show ?thesis by simp
next
  case (Cons e' es')
  show ?thesis
  proof (cases "anywhere e")
    case True
    have *: "(\<exists>a \<in> set (ancestors n). matches a es) = (\<exists>m. in_tree r m \<and> matches m es \<and> below m n)"
      using assms(1) in_tree_below_iff[OF assms(1)] in_tree_ancestor[OF assms(1)] by blast
    show ?thesis unfolding Cons using True *[unfolded Cons] by simp
  next
    case False
    have *: "(case node_parent n of None \<Rightarrow> False | Some p \<Rightarrow> matches p es) =
          (\<exists>m. in_tree r m \<and> matches m es \<and> n \<in> set (get_child_nodes m))"
      using assms(1) by (cases n) (auto simp: set_get_child_nodes)
    show ?thesis unfolding Cons using False *[unfolded Cons] by simp
  qed
qed

lemma set_last_anywhere_mark: "ret \<noteq> [] \<Longrightarrow> set_last_anywhere ret = Inr (mark_anywhere ret)"
  by (simp add: set_last_anywhere_def mark_anywhere_def)

lemma mark_anywhere_nonempty: "ret \<noteq> [] \<Longrightarrow> mark_anywhere ret \<noteq> []"
  by (simp add: mark_anywhere_def)

lemma xpath_loops_fold:
  "ret \<noteq> [] \<Longrightarrow> xpath_for segs ret = Inr (foldl compile_step ret segs)"
  "ret \<noteq> [] \<Longrightarrow> xpath_while seg segs ret = Inr (foldl compile_step ret (seg # segs))"
proof (induction segs ret and seg segs ret rule: xpath_for_xpath_while.induct)
  case (1 ret)
  then show ?case by simp
next
  case (2 el remaining ret)
  then show ?case by simp
next
  case (3 pf pi cls remaining ret)
  then show ?case by simp
next
  case (4 pf pi ret)
  then show ?case by (simp add: set_last_anywhere_mark)
next
  case (5 pf pi next_el remaining ret)
  then show ?case by (simp add: set_last_anywhere_mark mark_anywhere_nonempty)
qed

lemma foldl_compile_step_nonempty: "ret \<noteq> [] \<Longrightarrow> foldl compile_step ret segs \<noteq> []"
proof (induction segs arbitrary: ret)
  case Nil
  then show ?case by simp
next
  case (Cons seg segs)
  obtain pf pi c where seg: "seg = (pf, pi, c)" by (cases seg)
  show ?case using Cons by (cases c) (simp_all add: seg mark_anywhere_nonempty)
qed

lemma xpath_refines_spec:
  assumes "args \<noteq> []" "has_class (last args)"
  shows "xpath args = Inr (element_compiler_spec args)"
proof -
  obtain pf pi c where l: "last args = (pf, pi, Some c)"
    using assms(2) by (cases "last args") (auto simp: has_class_def)
  have r: "rev args = (pf, pi, Some c) # rev (butlast args)"
    unfolding rev_eq_Cons_iff l[symmetric] using assms(1) by simp
  show ?thesis
    by (simp add: xpath_def element_compiler_spec_def r xpath_loops_fold(1))
qed

lemma xpath_nonempty:
  assumes "args \<noteq> []" "has_class (last args)" "xpath args = Inr ers"
  shows "ers \<noteq> []"
proof -
  obtain pf pi c where l: "last args = (pf, pi, Some c)"
    using assms(2) by (cases "last args") (auto simp: has_class_def)
  have r: "rev args = (pf, pi, Some c) # rev (butlast args)"
    unfolding rev_eq_Cons_iff l[symmetric] using assms(1) by simp
  have "ers = element_compiler_spec args" using xpath_refines_spec[OF assms(1,2)] assms(3) by simp
  then show ?thesis by (simp add: element_compiler_spec_def r foldl_compile_step_nonempty)
qed

lemma element_has_class: "args \<noteq> [] \<Longrightarrow> has_class (element args)"
  by (simp add: element_def has_class_def split: prod.splits)

lemma parse_segment_has_class:
  "parse_segment types ts = Inr ((args, True), rest) \<Longrightarrow> args \<noteq> []"
  by (induction types ts rule: parse_segment.induct) (auto split: sum.splits prod.splits)

lemma parse_xpath_last:
  "parse_xpath types ts = Inr segs \<Longrightarrow> segs \<noteq> [] \<and> has_class (last segs)"
proof (induction types ts arbitrary: segs rule: parse_xpath.induct)
  case (1 types ts)
  from "1.prems" obtain args hc rest where ps: "parse_segment types ts = Inr ((args, hc), rest)"
    by (subst (asm) parse_xpath.simps) (auto split: sum.splits)
  show ?case
  proof (cases "rest = []")
    case True
    with "1.prems" ps have hc: "hc" and segs: "segs = [self args]"
      by (subst (asm) parse_xpath.simps, simp split: if_splits)+
    from ps hc have "parse_segment types ts = Inr ((args, True), rest)" by simp
    then have "args \<noteq> []" by (rule parse_segment_has_class)
    then show ?thesis by (simp add: segs self_def element_has_class)
  next
    case False
    with "1.prems" ps obtain segs' where s': "parse_xpath types rest = Inr segs'"
        and segs: "segs = element args # segs'"
      by (subst (asm) parse_xpath.simps) (auto split: sum.splits)
    from "1.IH"[OF ps _ _ False s'] have "segs' \<noteq> [] \<and> has_class (last segs')" by simp
    then show ?thesis by (simp add: segs)
  qed
qed

lemma xpath_parser_parse_nonempty:
  assumes "xpath_parser_parse types s = Inr ers"
  shows "ers \<noteq> []"
proof -
  from assms obtain ts segs where "parse_xpath types ts = Inr segs" "xpath segs = Inr ers"
    by (auto simp: xpath_parser_parse_def split: sum.splits)
  then show ?thesis using parse_xpath_last xpath_nonempty by blast
qed

lemma ASTXpath_call_success:
  assumes "ASTXpath_call types st xp = (Inr r, st')"
  shows "\<exists>ers. xpath_parser_parse types (absolute_xpath xp) = Inr ers \<and>
               objects st' r = Some \<lparr>elements_reversed = Some ers, elements = Some (rev ers)\<rparr> \<and>
               AST_XPATH_CACHE st' xp = Some r \<and>
               (\<forall>k. k \<noteq> xp \<longrightarrow> AST_XPATH_CACHE st' k = AST_XPATH_CACHE st k)"
  using assms
  by (auto simp: ASTXpath_call_def ASTXpath_new_def ASTXpath_init_def
           split: option.splits sum.splits prod.splits)

lemma ASTXpath_call_failure:
  assumes "ASTXpath_call types st xp = (Inl e, st')"
  shows "e = ASTXpathDefinitionError \<and> (\<exists>e'. xpath_parser_parse types (absolute_xpath xp) = Inl e') \<and>
         st' = snd (ASTXpath_new st xp)"
  using assms
  by (auto simp: ASTXpath_call_def ASTXpath_new_def ASTXpath_init_def
           split: option.splits sum.splits prod.splits)

lemma ASTXpath_call_cached:
  assumes "AST_XPATH_CACHE st xp = Some r"
  shows "ASTXpath_call types st xp =
           (case xpath_parser_parse types (absolute_xpath xp) of
              Inl e \<Rightarrow> (Inl ASTXpathDefinitionError, st)
            | Inr ers \<Rightarrow>
                (Inr r, st\<lparr>objects := (objects st)(r \<mapsto> \<lparr>elements_reversed = Some ers, elements = Some (rev ers)\<rparr>)\<rparr>))"
  using assms
  by (auto simp: ASTXpath_call_def ASTXpath_new_def ASTXpath_init_def split: sum.splits)

lemma repeated_call:
  assumes "ASTXpath_call types st p = (Inr r, st')"
  shows "ASTXpath_call types st' p = (Inr r, st')"
proof -
  from ASTXpath_call_success[OF assms] obtain ers where
    p: "xpath_parser_parse types (absolute_xpath p) = Inr ers" and
    o: "objects st' r = Some \<lparr>elements_reversed = Some ers, elements = Some (rev ers)\<rparr>" and
    c: "AST_XPATH_CACHE st' p = Some r" by blast
  have "(objects st')(r \<mapsto> \<lparr>elements_reversed = Some ers, elements = Some (rev ers)\<rparr>) = objects st'"
    using o by (simp add: fun_upd_idem_iff)
  then show ?thesis by (simp add: ASTXpath_call_cached[OF c] p)
qed

lemma failed_call_again:
  assumes "ASTXpath_call types st s = (Inl e, st')"
  shows "ASTXpath_call types st' s = (Inl ASTXpathDefinitionError, st') \<and>
         (\<forall>k. k \<noteq> s \<longrightarrow> AST_XPATH_CACHE st' k = AST_XPATH_CACHE st k) \<and>
         (\<exists>r. AST_XPATH_CACHE st' s = Some r \<and>
              (AST_XPATH_CACHE st s = None \<longrightarrow>
                 objects st' r = Some \<lparr>elements_reversed = None, elements = None\<rparr>))"
proof -
  from ASTXpath_call_failure[OF assms] obtain e' where
    p: "xpath_parser_parse types (absolute_xpath s) = Inl e'" and s: "st' = snd (ASTXpath_new st s)" by blast
  obtain r where c: "AST_XPATH_CACHE st' s = Some r"
    and b: "AST_XPATH_CACHE st s = None \<longrightarrow> objects st' r = Some \<lparr>elements_reversed = None, elements = None\<rparr>"
    and k: "\<forall>k. k \<noteq> s \<longrightarrow> AST_XPATH_CACHE st' k = AST_XPATH_CACHE st k"
    using s by (auto simp: ASTXpath_new_def split: option.splits)
  show ?thesis using c b k by (simp add: ASTXpath_call_cached[OF c] p)
qed

lemma example_call:
  "ASTXpath_call example_types initial_state ''A//Root'' = (Inr 0, example_state)"
  by (simp add: example_state_def prod_eq_iff ASTXpath_call_def ASTXpath_new_def ASTXpath_init_def
        initial_state_def absolute_xpath_def startswith_def example_types_def lexer_defs parser_defs
        split: prod.splits)

lemma example_object: "objects example_state 0 = Some example_path"
  by (simp add: example_state_def ASTXpath_call_def ASTXpath_new_def ASTXpath_init_def
        initial_state_def absolute_xpath_def startswith_def example_types_def lexer_defs parser_defs
        example_path_def split: prod.splits)

lemma example_nodes:
  "dfs False (TreeRoot example_tree) =
     [TreeRoot example_tree, middle_node, inner_node,
      Attached (TreeRoot example_tree) ''body'' (Some 1) (Subtree [''B''] [])]"
  by (simp add: dfs_def example_tree_def middle_node_def inner_node_def middle_subtree_def
        inner_subtree_def)

lemma failed_call:
  "ASTXpath_call example_types initial_state ''/@[0]'' = (Inl ASTXpathDefinitionError, failed_state)"
  by (simp add: failed_state_def prod_eq_iff ASTXpath_call_def ASTXpath_new_def ASTXpath_init_def
        initial_state_def absolute_xpath_def startswith_def example_types_def lexer_defs parser_defs
        split: prod.splits)

lemma failed_cache: "AST_XPATH_CACHE failed_state ''/@[0]'' = Some 0"
  by (simp add: failed_state_def ASTXpath_call_def ASTXpath_new_def ASTXpath_init_def
        initial_state_def absolute_xpath_def startswith_def example_types_def lexer_defs parser_defs
        split: prod.splits)

lemma failed_object: "objects failed_state 0 = Some \<lparr>elements_reversed = None, elements = None\<rparr>"
  by (simp add: failed_state_def ASTXpath_call_def ASTXpath_new_def ASTXpath_init_def
        initial_state_def absolute_xpath_def startswith_def example_types_def lexer_defs parser_defs
        split: prod.splits)

lemma absolute_xpath_relative:
  "\<not> startswith s ''/'' \<Longrightarrow> absolute_xpath (CHR ''/'' # CHR ''/'' # s) = absolute_xpath s"
  by (simp add: absolute_xpath_def startswith_def)

lemma lexer_punct:
  "lexer (CHR ''/'' # cs) = emit SLASH (lexer cs)"
  "lexer (CHR ''['' # cs) = emit LSQB (lexer cs)"
  "lexer (CHR '']'' # cs) = emit RSQB (lexer cs)"
  by (simp_all add: is_WS_def)

lemma is_DIGIT_other:
  assumes "is_DIGIT d"
  shows "\<not> is_WS d \<and> d \<noteq> CHR ''/'' \<and> d \<noteq> CHR ''@'' \<and> d \<noteq> CHR ''['' \<and> d \<noteq> CHR '']'' \<and>
         \<not> is_CNAME_start d"
proof -
  from assms have "d = CHR ''0'' \<or> d = CHR ''1'' \<or> d = CHR ''2'' \<or> d = CHR ''3'' \<or> d = CHR ''4'' \<or>
      d = CHR ''5'' \<or> d = CHR ''6'' \<or> d = CHR ''7'' \<or> d = CHR ''8'' \<or> d = CHR ''9''"
    by (simp add: is_DIGIT_def)
  then show ?thesis
    by (elim disjE) (simp_all add: is_WS_def is_CNAME_start_def is_LETTER_def)
qed

lemma lexer_DIGIT: "is_DIGIT d \<Longrightarrow> lexer (d # cs) = emit (DIGIT [d]) (lexer cs)"
  using is_DIGIT_other[of d] by simp

lemma lexer_digits:
  "list_all is_DIGIT ds \<Longrightarrow>
     lexer (ds @ cs) = (case lexer cs of Inl e \<Rightarrow> Inl e | Inr ts \<Rightarrow> Inr (map (\<lambda>c. DIGIT [c]) ds @ ts))"
proof (induction ds)
  case Nil
  show ?case by (simp split: sum.splits)
next
  case (Cons d ds)
  then have d: "is_DIGIT d" and ds: "list_all is_DIGIT ds" by simp_all
  show ?case
    using Cons.IH[OF ds] lexer_DIGIT[OF d, of "ds @ cs"]
    by (simp del: lexer.simps split: sum.splits)
qed

lemma lexer_index_spec:
  "list_all is_DIGIT ds \<Longrightarrow>
     lexer (CHR ''['' # ds @ CHR '']'' # cs) =
       (case lexer cs of Inl e \<Rightarrow> Inl e
        | Inr ts \<Rightarrow> Inr (LSQB # map (\<lambda>c. DIGIT [c]) ds @ RSQB # ts))"
  unfolding lexer_punct(2) by (simp del: lexer.simps add: lexer_digits lexer_punct(3) split: sum.splits)

lemma parse_DIGITs_map:
  "parse_DIGITs (map (\<lambda>c. DIGIT [c]) ds @ RSQB # ts) = (map (\<lambda>c. [c]) ds, RSQB # ts)"
  by (induction ds) simp_all

lemma index_spec_first: "index_spec (map (\<lambda>c. [c]) (d # ds)) = digit_value d"
  by (simp add: index_spec_def py_int_def)

lemma parse_index_spec_digits:
  "parse_index_spec (LSQB # map (\<lambda>c. DIGIT [c]) (d # ds) @ RSQB # ts) =
     Inr ([IntArg (digit_value d)], ts)"
  using parse_DIGITs_map[of "d # ds" ts] index_spec_first[of d ds]
  by (simp del: parse_DIGITs.simps list.map add: parse_DIGITs_map)

lemma parse_segment_index_digits:
  "parse_segment types (SLASH # LSQB # map (\<lambda>c. DIGIT [c]) (d # ds) @ RSQB # ts) =
     (case parse_class_spec types ts of
        Inl e \<Rightarrow> Inl e
      | Inr (a3, ts3) \<Rightarrow> Inr (([IntArg (digit_value d)] @ a3, a3 \<noteq> []), ts3))"
proof -
  have "parse_field_spec (LSQB # map (\<lambda>c. DIGIT [c]) (d # ds) @ RSQB # ts) =
          Inr ([], LSQB # map (\<lambda>c. DIGIT [c]) (d # ds) @ RSQB # ts)" by simp
  then show ?thesis
    by (simp only: parse_segment.simps parse_index_spec_digits sum.case prod.case append_Nil)
qed

lemma parse_xpath_index_digits:
  "parse_xpath types (SLASH # LSQB # map (\<lambda>c. DIGIT [c]) (d # ds) @ RSQB # ts) =
   parse_xpath types (SLASH # LSQB # map (\<lambda>c. DIGIT [c]) [d] @ RSQB # ts)"
  by (subst (1 2) parse_xpath.simps) (simp only: parse_segment_index_digits)

lemma example_call2:
  "ASTXpath_call example_types initial_state (''//'' @ ''A//Root'') = (Inr 0, example_state2)"
  by (simp add: example_state2_def prod_eq_iff ASTXpath_call_def ASTXpath_new_def ASTXpath_init_def
        initial_state_def absolute_xpath_def startswith_def example_types_def lexer_defs parser_defs
        split: prod.splits)

lemma example_object2: "objects example_state2 0 = Some example_path"
  by (simp add: example_state2_def ASTXpath_call_def ASTXpath_new_def ASTXpath_init_def
        initial_state_def absolute_xpath_def startswith_def example_types_def lexer_defs parser_defs
        example_path_def split: prod.splits)

lemma element_loop_append:
  "element_loop (xs @ ys) acc = element_loop ys (element_loop xs acc)"
  by (induction xs acc rule: element_loop.induct) simp_all

lemma element_loop_no_index:
  "\<forall>a \<in> set xs. \<forall>i. a \<noteq> IntArg i \<Longrightarrow> snd (snd (element_loop xs (ty, pf, idx))) = idx"
proof (induction xs arbitrary: ty pf)
  case Nil
  show ?case by simp
next
  case (Cons a xs)
  then show ?case by (cases a) simp_all
qed

lemma element_loop_empty_index:
  assumes "\<forall>a \<in> set pre. \<forall>i. a \<noteq> IntArg i"
  shows "element_loop (pre @ IntArg (- 1) # post) (ty, pf, None) = element_loop (pre @ post) (ty, pf, None)"
proof -
  obtain ty' pf' idx' where e: "element_loop pre (ty, pf, None) = (ty', pf', idx')"
    by (cases "element_loop pre (ty, pf, None)")
  from element_loop_no_index[OF assms, of ty pf None] e have "idx' = None" by simp
  with e show ?thesis by (simp add: element_loop_append)
qed

lemma helper_view_Attached: "\<exists>p f i t. helper_view n = Attached p f i t"
  by (cases n) simp_all

lemma caller_node_helper_view: "caller_node (helper_view n) = n"
proof (induction n)
  case (TreeRoot t)
  show ?case by simp
next
  case (Attached p f i t)
  obtain p' f' i' t' where "helper_view p = Attached p' f' i' t'"
    using helper_view_Attached by blast
  with Attached show ?case by simp
qed

lemma node_subtree_helper_view: "node_subtree (helper_view n) = node_subtree n"
  by (cases n) simp_all

lemma in_tree_helper_view: "in_tree (DUMMY_XPATH_ROOT t) (helper_view n) = in_tree t n"
  by (induction n) (auto simp: node_subtree_helper_view DUMMY_XPATH_ROOT_def)

lemma in_tree_helper:
  "in_tree (DUMMY_XPATH_ROOT t) x =
     (x = TreeRoot (DUMMY_XPATH_ROOT t) \<or> (\<exists>n. in_tree t n \<and> x = helper_view n))"
proof (induction x)
  case (TreeRoot s)
  show ?case using helper_view_Attached by (auto, metis ast_node.distinct(1))
next
  case (Attached p f i s)
  show ?case
  proof
    assume a: "in_tree (DUMMY_XPATH_ROOT t) (Attached p f i s)"
    then have k: "(f, i, s) \<in> set (child_fields (node_subtree p))" and p: "in_tree (DUMMY_XPATH_ROOT t) p"
      by simp_all
    from p Attached.IH consider "p = TreeRoot (DUMMY_XPATH_ROOT t)" | n where "in_tree t n" "p = helper_view n"
      by blast
    then have "\<exists>n. in_tree t n \<and> Attached p f i s = helper_view n"
    proof cases
      case 1
      with k have "Attached p f i s = helper_view (TreeRoot t)" by (simp add: DUMMY_XPATH_ROOT_def)
      moreover have "in_tree t (TreeRoot t)" by simp
      ultimately show ?thesis by blast
    next
      case 2
      with k have "Attached p f i s = helper_view (Attached n f i s)" "in_tree t (Attached n f i s)"
        by (simp_all add: node_subtree_helper_view)
      then show ?thesis by blast
    qed
    then show "Attached p f i s = TreeRoot (DUMMY_XPATH_ROOT t) \<or>
               (\<exists>n. in_tree t n \<and> Attached p f i s = helper_view n)" by simp
  next
    assume "Attached p f i s = TreeRoot (DUMMY_XPATH_ROOT t) \<or>
               (\<exists>n. in_tree t n \<and> Attached p f i s = helper_view n)"
    then obtain n where "in_tree t n" "Attached p f i s = helper_view n" by auto
    then show "in_tree (DUMMY_XPATH_ROOT t) (Attached p f i s)"
      using in_tree_helper_view[of t n] by simp
  qed
qed

lemma ancestors_helper_view:
  "ancestors (helper_view n) =
     map helper_view (ancestors n) @ [TreeRoot (DUMMY_XPATH_ROOT (root_subtree n))]"
  by (induction n) simp_all

lemma matches_helper_element: "matches a [helper_element] = (node_parent a = None)"
  by (simp add: helper_element_def match_node_element_def)

lemma matches_parentless_long:
  "node_parent x = None \<Longrightarrow> matches x (e # e' # es) = False"
  by (cases x) simp_all

lemma match_node_element_helper_view:
  "node_parent n \<noteq> None \<or> parent_field e \<noteq> Some ''child'' \<Longrightarrow>
     match_node_element (helper_view n) e = match_node_element n e"
  by (cases n; cases "ast_class e") (auto simp: match_node_element_def)

lemma findall_loop_snoc:
  "findall_loop (es @ [e]) work nw = Some (concat (map (expand e) (work_after es work)))"
  by (induction es arbitrary: work nw) (simp_all add: Let_def)

lemma work_after_snoc:
  "work_after (es @ [e]) w = concat (map (expand e) (work_after es w))"
  by (induction es arbitrary: w) simp_all

lemma set_expand:
  "set (expand e m) =
     {n. match_node_element n e \<and> (if anywhere e then below m n else n \<in> set (get_child_nodes m))}"
  by (auto simp: expand_def set_dfs_skip)

lemma set_work_after:
  "set (work_after es [TreeRoot h]) = {n. in_tree h n \<and> matches n (rev es @ [helper_element])}"
proof (induction es rule: rev_induct)
  case Nil
  have "{n. in_tree h n \<and> node_parent n = None} = {TreeRoot h}"
    using in_tree_no_parent[of h] by auto
  then show ?case by (simp add: helper_element_def match_node_element_def)
next
  case (snoc e es)
  let ?L = "rev es @ [helper_element]"
  have ne: "?L \<noteq> []" by simp
  have "(\<Union>w \<in> set (work_after es [TreeRoot h]). set (expand e w)) =
        {n. in_tree h n \<and> matches n (e # ?L)}" (is "?A = ?B")
  proof (rule set_eqI)
    fix n
    have "n \<in> ?A = (\<exists>m. in_tree h m \<and> matches m ?L \<and> match_node_element n e \<and>
                      (if anywhere e then below m n else n \<in> set (get_child_nodes m)))"
      unfolding snoc.IH by (cases "anywhere e") (auto simp: set_expand)
    also have "\<dots> = (in_tree h n \<and> matches n (e # ?L))"
    proof (cases "in_tree h n")
      case True
      from matches_step[OF True ne, of e] True show ?thesis by blast
    next
      case nin: False
      have "\<not> (\<exists>m. in_tree h m \<and> (if anywhere e then below m n else n \<in> set (get_child_nodes m)))"
        using nin in_tree_below[of h _ n] in_tree_child[of h _ n] by (metis (full_types))
      with nin show ?thesis by blast
    qed
    finally show "n \<in> ?A = (n \<in> ?B)" by simp
  qed
  then show ?case by (simp add: work_after_snoc)
qed

lemma matches_parentless:
  "node_parent x = None \<Longrightarrow> es \<noteq> [] \<Longrightarrow> matches x (e # es) = False"
  by (cases x; cases es) simp_all

lemma helper_element_test:
  "match_node_element a helper_element" "\<not> anywhere helper_element"
  by (simp_all add: helper_element_def match_node_element_def)

lemma node_parent_helper_view: "node_parent (helper_view n) \<noteq> None"
  by (cases n) simp_all

lemma matches_helper_view:
  "ers \<noteq> [] \<Longrightarrow> parent_field (last ers) \<noteq> Some ''child'' \<Longrightarrow>
     matches (helper_view n) (ers @ [helper_element]) = matches n ers"
proof (induction ers arbitrary: n)
  case Nil
  then show ?case by simp
next
  case (Cons e rest)
  show ?case
  proof (cases rest)
    case Nil
    with Cons.prems have f: "parent_field e \<noteq> Some ''child''" by simp
    have m: "match_node_element (helper_view n) e = match_node_element n e"
      using f by (simp add: match_node_element_helper_view)
    have a: "(\<exists>a \<in> set (ancestors (helper_view n)). node_parent a = None)"
      by (simp add: ancestors_helper_view)
    have p: "(case node_parent (helper_view n) of None \<Rightarrow> False | Some p \<Rightarrow> matches p [helper_element]) =
             (node_parent n = None)"
      using node_parent_helper_view by (cases n) (auto simp: helper_element_test)
    show ?thesis
      using a p by (simp add: Nil m helper_element_test del: helper_view.simps)
  next
    case (Cons e' rest')
    have IH: "matches (helper_view a) (rest @ [helper_element]) = matches a rest" for a
      using Cons.IH[of a] Cons.prems Cons by simp
    have top: "matches (TreeRoot (DUMMY_XPATH_ROOT (root_subtree n))) (rest @ [helper_element]) = False"
      unfolding Cons append_Cons by (rule matches_parentless) simp_all
    show ?thesis
    proof (cases n)
      case (TreeRoot t)
      show ?thesis
        by (simp add: TreeRoot Cons matches_parentless)
    next
      case (Attached p f i t)
      have m: "match_node_element (helper_view n) e = match_node_element n e"
        by (simp add: match_node_element_helper_view Attached del: helper_view.simps)
      have an: "(\<exists>a \<in> set (ancestors (helper_view n)). matches a (rest @ [helper_element])) =
                (\<exists>a \<in> set (ancestors n). matches a rest)"
        using top by (auto simp: ancestors_helper_view IH)
      have pa: "matches (helper_view p) (rest @ [helper_element]) = matches p rest" by (rule IH)
      have l: "matches (helper_view n) (e # e' # rest' @ [helper_element]) =
            (match_node_element (helper_view n) e \<and>
             (if anywhere e then (\<exists>a \<in> set (ancestors (helper_view n)). matches a (e' # rest' @ [helper_element]))
              else matches (helper_view p) (e' # rest' @ [helper_element])))"
        by (simp add: Attached)
      have r: "matches n (e # e' # rest') =
            (match_node_element n e \<and>
             (if anywhere e then (\<exists>a \<in> set (ancestors n). matches a (e' # rest'))
              else matches p (e' # rest')))"
        by (simp add: Attached)
      show ?thesis
        using an pa m unfolding Cons by (simp only: append_Cons l r)
    qed
  qed
qed

lemma findall_elements_set:
  assumes "es \<noteq> []"
  shows "\<exists>ns. findall_elements es (TreeRoot t) = Inr ns \<and>
              set ns = {n. in_tree t n \<and> matches (helper_view n) (rev es @ [helper_element])}"
proof -
  obtain es' e where es: "es = es' @ [e]" using assms by (metis rev_exhaust)
  let ?h = "DUMMY_XPATH_ROOT t"
  let ?L = "rev es @ [helper_element]"
  let ?found = "concat (map (expand e) (work_after es' [TreeRoot ?h]))"
  have 1: "findall_elements es (TreeRoot t) = Inr (map caller_node ?found)"
    by (simp add: findall_elements_def es findall_loop_snoc)
  have f: "set ?found = {x. in_tree ?h x \<and> matches x ?L}"
    using set_work_after[of es ?h] by (simp add: es work_after_snoc)
  have top: "\<not> matches (TreeRoot ?h) ?L"
  proof -
    obtain e0 rest where r: "rev es = e0 # rest" using assms by (cases "rev es") simp_all
    have "matches (TreeRoot ?h) (e0 # (rest @ [helper_element])) = False"
      by (rule matches_parentless) simp_all
    then show ?thesis by (simp add: r)
  qed
  have "caller_node ` {x. in_tree ?h x \<and> matches x ?L} = {n. in_tree t n \<and> matches (helper_view n) ?L}"
    (is "?A = ?B")
  proof (rule set_eqI)
    fix n
    show "n \<in> ?A = (n \<in> ?B)"
    proof
      assume "n \<in> ?A"
      then obtain x where x: "in_tree ?h x" "matches x ?L" "n = caller_node x" by auto
      from x(1,2) top obtain m where m: "in_tree t m" "x = helper_view m"
        using in_tree_helper[of t x] by auto
      with x show "n \<in> ?B" by (simp add: caller_node_helper_view)
    next
      assume "n \<in> ?B"
      then have "in_tree ?h (helper_view n)" "matches (helper_view n) ?L"
        by (simp_all add: in_tree_helper_view)
      then have "caller_node (helper_view n) \<in> ?A" by blast
      then show "n \<in> ?A" by (simp add: caller_node_helper_view)
    qed
  qed
  with 1 f show ?thesis by simp
qed

lemma match_findall_agree:
  assumes "es \<noteq> []" and "parent_field (last es) \<noteq> Some ''child''"
    and "n \<in> set (dfs False (TreeRoot t))"
  shows "\<exists>ns. findall_elements (rev es) (TreeRoot t) = Inr ns \<and>
              (match_node_xpath n es = Inr True) = (n \<in> set ns)"
proof -
  have n: "in_tree t n" using assms(3) by (auto simp: set_dfs_all in_tree_root_or_below)
  have "rev es \<noteq> []" using assms(1) by simp
  from findall_elements_set[OF this, of t] obtain ns where
    ns: "findall_elements (rev es) (TreeRoot t) = Inr ns"
    and s: "set ns = {n. in_tree t n \<and> matches (helper_view n) (es @ [helper_element])}" by auto
  have "matches (helper_view n) (es @ [helper_element]) = matches n es"
    by (rule matches_helper_view[OF assms(1,2)])
  with ns s n match_node_xpath_matches(1)[OF assms(1), of n] show ?thesis by simp
qed



lemma example_findall: "ASTXpath_findall example_path (TreeRoot example_tree) = Inr [inner_node]"
  by (simp add: ASTXpath_findall_def findall_elements_def example_path_def expand_def dfs_def
        get_child_nodes_def match_node_element_def example_tree_def middle_subtree_def
        inner_subtree_def inner_node_def middle_node_def DUMMY_XPATH_ROOT_def)

lemma example_elements:
  "elements example_path = Some
     [\<lparr>ast_class = NodeClass ''A'', parent_field = None, parent_index = None, anywhere = True\<rparr>,
      \<lparr>ast_class = NodeClass ''Root'', parent_field = None, parent_index = None, anywhere = True\<rparr>]"
  by (simp add: example_path_def)

lemma helper_field_seen_by_findall:
  "xpath_parser_parse example_types ''/@child Root'' = Inr [child_root_element] \<and>
   match_node_xpath (TreeRoot example_tree) [child_root_element] = Inr False \<and>
   findall_elements [child_root_element] (TreeRoot example_tree) = Inr [TreeRoot example_tree] \<and>
   findall_elements [child_root_element] inner_node = Inl ASTNodeParentCollisionError"
  by (simp add: child_root_element_def example_types_def lexer_defs parser_defs
        match_node_element_def findall_elements_def expand_def get_child_nodes_def
        DUMMY_XPATH_ROOT_def example_tree_def inner_node_def)

section \<open>Properties\<close>

text \<open>
  C3.  A node that passes the single-element test of the last (root-most) element of the
  leaf-to-root list is matched exactly when that element is an anywhere element or the
  node has no parent.  In particular the path \<open>/Root\<close> compiles to one element that is
  not anywhere, and it matches a node exactly when the node has the type and is the root
  of its tree.
\<close>

theorem final_element_requires_root:
  "(match_node_element n e \<longrightarrow> match_node_xpath n [e] = Inr (anywhere e \<or> node_parent n = None)) \<and>
   (types ''Root'' = Some c \<longrightarrow>
      xpath_parser_parse types ''/Root'' =
        Inr [\<lparr>ast_class = c, parent_field = None, parent_index = None, anywhere = False\<rparr>] \<and>
      match_node_xpath n [\<lparr>ast_class = c, parent_field = None, parent_index = None, anywhere = False\<rparr>] =
        Inr (isinstance n c \<and> node_parent n = None))"
  by (auto simp: lexer_defs parser_defs match_node_element_def)

theorem final_element_requires_root_witness:
  "match_node_element inner_node root_element \<and>
   match_node_xpath inner_node [root_element] = Inr False \<and>
   match_node_xpath (TreeRoot example_tree) [root_element] = Inr True \<and>
   example_types ''Root'' = Some (NodeClass ''Root'') \<and>
   xpath_parser_parse example_types ''/Root'' = Inr [root_element]"
  using final_element_requires_root[of inner_node root_element example_types "NodeClass ''Root''"]
        final_element_requires_root[of "TreeRoot example_tree" root_element example_types "NodeClass ''Root''"]
  by (simp add: match_node_element_def inner_node_def inner_subtree_def root_element_def
        example_types_def example_tree_def)

text \<open>
  C4.  On raw segments whose last one (the self segment) bears a class, the transformer's
  \<open>xpath\<close> callback computes what the specification describes: one element per
  class-bearing segment, from the self segment towards the start, with \<open>anywhere\<close> set
  on the element emitted last whenever placeholders follow, also when the segments run out
  inside such a run.
\<close>

theorem element_compiler_refines_spec:
  "args \<noteq> [] \<Longrightarrow> has_class (last args) \<Longrightarrow> xpath args = Inr (element_compiler_spec args)"
  by (rule xpath_refines_spec)

theorem element_compiler_refines_spec_witness:
  "example_segments \<noteq> [] \<and> has_class (last example_segments) \<and>
   xpath example_segments =
     Inr [\<lparr>ast_class = NodeClass ''B'', parent_field = Some ''f'', parent_index = Some 2, anywhere = True\<rparr>,
          \<lparr>ast_class = NodeClass ''A'', parent_field = None, parent_index = None, anywhere = True\<rparr>]"
  using element_compiler_refines_spec[of example_segments]
  by (simp add: example_segments_def has_class_def element_compiler_spec_def mark_anywhere_def)

text \<open>
  C2.  A construction that raises does change the cache: \<open>__new__\<close> has stored a blank
  object under the source string before \<open>__init__\<close> parses it.  Constructing
  \<open>ASTXpath("/@[0]")\<close> in the initial state raises, and afterwards the cache maps that
  string to an object with neither element list set.
\<close>

theorem failed_compile_changes_cache:
  "ASTXpath_call example_types initial_state ''/@[0]'' = (Inl ASTXpathDefinitionError, failed_state) \<and>
   AST_XPATH_CACHE initial_state ''/@[0]'' = None \<and>
   AST_XPATH_CACHE failed_state ''/@[0]'' = Some 0 \<and>
   objects failed_state 0 = Some \<lparr>elements_reversed = None, elements = None\<rparr> \<and>
   AST_XPATH_CACHE failed_state \<noteq> AST_XPATH_CACHE initial_state"
proof -
  have n: "AST_XPATH_CACHE initial_state ''/@[0]'' = None" by (simp add: initial_state_def)
  have "AST_XPATH_CACHE failed_state \<noteq> AST_XPATH_CACHE initial_state"
  proof
    assume "AST_XPATH_CACHE failed_state = AST_XPATH_CACHE initial_state"
    then have "AST_XPATH_CACHE failed_state ''/@[0]'' = AST_XPATH_CACHE initial_state ''/@[0]''"
      by (rule arg_cong)
    then show False unfolding n failed_cache by simp
  qed
  then show ?thesis using n failed_call failed_cache failed_object by (intro conjI)
qed

text \<open>
  C2, as the code has it.  A construction that raises raises
  \<open>ASTXpathDefinitionError\<close> and returns no object; constructing the same string again
  raises again and changes nothing further; the entries of all other strings are as
  before.  The cache does hold an entry for the string afterwards, and when the string was
  not cached before, that entry is a blank object.
\<close>

theorem failed_compile_returns_no_path:
  assumes "ASTXpath_call types st s = (Inl e, st')"
  shows "e = ASTXpathDefinitionError \<and>
         ASTXpath_call types st' s = (Inl ASTXpathDefinitionError, st') \<and>
         (\<forall>k. k \<noteq> s \<longrightarrow> AST_XPATH_CACHE st' k = AST_XPATH_CACHE st k) \<and>
         (\<exists>r. AST_XPATH_CACHE st' s = Some r \<and>
              (AST_XPATH_CACHE st s = None \<longrightarrow>
                 objects st' r = Some \<lparr>elements_reversed = None, elements = None\<rparr>))"
  using ASTXpath_call_failure[OF assms] failed_call_again[OF assms] by blast

theorem failed_compile_returns_no_path_witness:
  "ASTXpath_call example_types initial_state ''/@[0]'' = (Inl ASTXpathDefinitionError, failed_state) \<and>
   ASTXpath_call example_types failed_state ''/@[0]'' = (Inl ASTXpathDefinitionError, failed_state) \<and>
   AST_XPATH_CACHE failed_state ''/A'' = AST_XPATH_CACHE initial_state ''/A'' \<and>
   AST_XPATH_CACHE initial_state ''/@[0]'' = None \<and>
   (\<exists>r. AST_XPATH_CACHE failed_state ''/@[0]'' = Some r \<and>
        objects failed_state r = Some \<lparr>elements_reversed = None, elements = None\<rparr>)"
proof -
  note t = failed_compile_returns_no_path[OF failed_call]
  have n: "AST_XPATH_CACHE initial_state ''/@[0]'' = None" by (simp add: initial_state_def)
  have d: "''/A'' \<noteq> ''/@[0]''" by simp
  have 1: "ASTXpath_call example_types failed_state ''/@[0]'' = (Inl ASTXpathDefinitionError, failed_state)"
    by (rule t[THEN conjunct2, THEN conjunct1])
  have 2: "AST_XPATH_CACHE failed_state ''/A'' = AST_XPATH_CACHE initial_state ''/A''"
    by (rule t[THEN conjunct2, THEN conjunct2, THEN conjunct1, rule_format, OF d])
  from t[THEN conjunct2, THEN conjunct2, THEN conjunct2] n
  have 3: "\<exists>r. AST_XPATH_CACHE failed_state ''/@[0]'' = Some r \<and>
        objects failed_state r = Some \<lparr>elements_reversed = None, elements = None\<rparr>"
    by (elim exE conjE) (rule exI, simp)
  from failed_call 1 2 n 3 show ?thesis by (intro conjI)
qed

text \<open>
  C6.  After a successful construction, constructing the same source string again returns
  the same reference and leaves the state as it is.  The cache entry is under the source
  string as given; no other key is touched, in particular not the normalized string.
\<close>

theorem repeated_construction_same_object:
  assumes "ASTXpath_call types st p = (Inr r, st')"
  shows "ASTXpath_call types st' p = (Inr r, st') \<and> AST_XPATH_CACHE st' p = Some r \<and>
         (\<forall>k. k \<noteq> p \<longrightarrow> AST_XPATH_CACHE st' k = AST_XPATH_CACHE st k)"
  using repeated_call[OF assms] ASTXpath_call_success[OF assms] by blast

theorem repeated_construction_same_object_witness:
  "ASTXpath_call example_types initial_state ''A//Root'' = (Inr 0, example_state) \<and>
   ASTXpath_call example_types example_state ''A//Root'' = (Inr 0, example_state) \<and>
   AST_XPATH_CACHE example_state ''A//Root'' = Some 0 \<and>
   absolute_xpath ''A//Root'' = ''//A//Root'' \<and>
   AST_XPATH_CACHE example_state ''//A//Root'' = None"
proof -
  note t = repeated_construction_same_object[OF example_call]
  have n: "AST_XPATH_CACHE initial_state ''//A//Root'' = None" by (simp add: initial_state_def)
  have d: "''//A//Root'' \<noteq> ''A//Root''" by simp
  have z: "absolute_xpath ''A//Root'' = ''//A//Root''" by (simp add: absolute_xpath_def startswith_def)
  have 1: "ASTXpath_call example_types example_state ''A//Root'' = (Inr 0, example_state)"
    by (rule t[THEN conjunct1])
  have 2: "AST_XPATH_CACHE example_state ''A//Root'' = Some 0"
    by (rule t[THEN conjunct2, THEN conjunct1])
  have 3: "AST_XPATH_CACHE example_state ''//A//Root'' = None"
    unfolding n[symmetric] by (rule t[THEN conjunct2, THEN conjunct2, rule_format, OF d])
  from example_call 1 2 z 3 show ?thesis by (intro conjI)
qed

text \<open>
  C9.  The object returned by a successful construction holds a non-empty leaf-to-root
  list and, as root-to-leaf list, exactly its reverse.  \<open>ASTXpath_match\<close> and
  \<open>ASTXpath_findall\<close> are functions of the object and the node that return a result
  only: they have no way to change either list.
\<close>

theorem compiled_path_nonempty_reversed:
  assumes "ASTXpath_call types st p = (Inr r, st')"
  shows "\<exists>ers. ers \<noteq> [] \<and>
           objects st' r = Some \<lparr>elements_reversed = Some ers, elements = Some (rev ers)\<rparr>"
  using ASTXpath_call_success[OF assms] xpath_parser_parse_nonempty by blast

theorem compiled_path_nonempty_reversed_witness:
  "ASTXpath_call example_types initial_state ''A//Root'' = (Inr 0, example_state) \<and>
   (\<exists>ers. ers \<noteq> [] \<and>
      objects example_state 0 = Some \<lparr>elements_reversed = Some ers, elements = Some (rev ers)\<rparr>)"
  using compiled_path_nonempty_reversed[OF example_call] example_call by (intro conjI)

text \<open>
  C5.  For a source string that does not begin with a slash, constructing it and
  constructing the same string behind two slashes either both raise
  \<open>ASTXpathDefinitionError\<close> or both succeed with objects holding the same element
  lists, so that \<open>match\<close> and \<open>findall\<close> of the two objects agree on every node
  and every root.
\<close>

theorem relative_path_is_anywhere:
  assumes "\<not> startswith s ''/''"
    and "ASTXpath_call types st s = (res, st')"
    and "ASTXpath_call types st2 (''//'' @ s) = (res2, st2')"
  shows "(res = Inl ASTXpathDefinitionError \<and> res2 = Inl ASTXpathDefinitionError) \<or>
         (\<exists>r r2 path. res = Inr r \<and> res2 = Inr r2 \<and>
            objects st' r = Some path \<and> objects st2' r2 = Some path \<and>
            (\<forall>node. ASTXpath_match (the (objects st' r)) node = ASTXpath_match (the (objects st2' r2)) node) \<and>
            (\<forall>root. ASTXpath_findall (the (objects st' r)) root =
                     ASTXpath_findall (the (objects st2' r2)) root))"
proof (cases res)
  case (Inl e)
  from ASTXpath_call_failure[OF assms(2)[unfolded Inl]] obtain e' where
    e: "e = ASTXpathDefinitionError" and p: "xpath_parser_parse types (absolute_xpath s) = Inl e'" by blast
  have "res2 = Inl ASTXpathDefinitionError"
  proof (cases res2)
    case (Inl e2)
    from ASTXpath_call_failure[OF assms(3)[unfolded Inl]] show ?thesis by (simp add: Inl)
  next
    case (Inr r2)
    from ASTXpath_call_success[OF assms(3)[unfolded Inr]] p show ?thesis
      by (simp add: absolute_xpath_relative[OF assms(1)])
  qed
  with Inl e show ?thesis by simp
next
  case (Inr r)
  from ASTXpath_call_success[OF assms(2)[unfolded Inr]] obtain ers where
    p: "xpath_parser_parse types (absolute_xpath s) = Inr ers" and
    o: "objects st' r = Some \<lparr>elements_reversed = Some ers, elements = Some (rev ers)\<rparr>" by blast
  show ?thesis
  proof (cases res2)
    case (Inl e2)
    from ASTXpath_call_failure[OF assms(3)[unfolded Inl]] p show ?thesis
      by (simp add: absolute_xpath_relative[OF assms(1)])
  next
    case r2: (Inr r2)
    from ASTXpath_call_success[OF assms(3)[unfolded r2]] p
    have "objects st2' r2 = Some \<lparr>elements_reversed = Some ers, elements = Some (rev ers)\<rparr>"
      by (auto simp: absolute_xpath_relative[OF assms(1)])
    with o Inr r2 show ?thesis by simp
  qed
qed

theorem relative_path_is_anywhere_witness:
  "\<not> startswith ''A//Root'' ''/'' \<and>
   ASTXpath_call example_types initial_state ''A//Root'' = (Inr 0, example_state) \<and>
   ASTXpath_call example_types initial_state (''//'' @ ''A//Root'') = (Inr 0, example_state2) \<and>
   objects example_state 0 = Some example_path \<and> objects example_state2 0 = Some example_path \<and>
   (\<forall>node. ASTXpath_match (the (objects example_state 0)) node =
            ASTXpath_match (the (objects example_state2 0)) node)"
proof -
  have r: "\<not> startswith ''A//Root'' ''/''" by (simp add: startswith_def)
  from relative_path_is_anywhere[OF r example_call example_call2]
  have "\<forall>node. ASTXpath_match (the (objects example_state 0)) node =
            ASTXpath_match (the (objects example_state2 0)) node"
    by (elim disjE conjE exE) simp_all
  with r example_call example_call2 example_object example_object2 show ?thesis by (intro conjI)
qed

text \<open>
  C10.  In an index spec of two or more digits every digit is a token of its own, and
  \<open>index_spec\<close> converts the first token only: the index spec yields the value of
  its first digit, the same argument as the index spec made of that digit alone, and the
  two paths compile to the same elements.
\<close>

theorem index_spec_uses_first_digit:
  assumes "is_DIGIT d" and "list_all is_DIGIT ds" and "ds \<noteq> []"
  shows "lexer (''['' @ d # ds @ '']'') = Inr (LSQB # map (\<lambda>c. DIGIT [c]) (d # ds) @ [RSQB]) \<and>
         index_spec (map (\<lambda>c. [c]) (d # ds)) = digit_value d \<and>
         parse_index_spec (LSQB # map (\<lambda>c. DIGIT [c]) (d # ds) @ RSQB # ts) =
           parse_index_spec (LSQB # DIGIT [d] # RSQB # ts) \<and>
         xpath_parser_parse types (''/['' @ d # ds @ '']'' @ rest) =
           xpath_parser_parse types (''/['' @ [d] @ '']'' @ rest)"
proof -
  have all: "list_all is_DIGIT (d # ds)" and one: "list_all is_DIGIT [d]" using assms by simp_all
  have 1: "lexer (''['' @ d # ds @ '']'') = Inr (LSQB # map (\<lambda>c. DIGIT [c]) (d # ds) @ [RSQB])"
    using lexer_index_spec[OF all, of "[]"] by (simp del: lexer.simps add: lexer.simps(1))
  have 3: "parse_index_spec (LSQB # map (\<lambda>c. DIGIT [c]) (d # ds) @ RSQB # ts) =
           parse_index_spec (LSQB # DIGIT [d] # RSQB # ts)"
    using parse_index_spec_digits[of d ds ts] parse_index_spec_digits[of d "[]" ts] by simp
  have l: "lexer (CHR ''/'' # CHR ''['' # D @ CHR '']'' # rest) =
       (case lexer rest of Inl e \<Rightarrow> Inl e
        | Inr ts \<Rightarrow> Inr (SLASH # LSQB # map (\<lambda>c. DIGIT [c]) D @ RSQB # ts))"
    if "list_all is_DIGIT D" for D
    unfolding lexer_punct(1) lexer_index_spec[OF that] by (simp split: sum.splits)
  have e1: "''/['' @ d # ds @ '']'' @ rest = CHR ''/'' # CHR ''['' # (d # ds) @ CHR '']'' # rest"
    by simp
  have e2: "''/['' @ [d] @ '']'' @ rest = CHR ''/'' # CHR ''['' # [d] @ CHR '']'' # rest"
    by simp
  have 4: "xpath_parser_parse types (''/['' @ d # ds @ '']'' @ rest) =
           xpath_parser_parse types (''/['' @ [d] @ '']'' @ rest)"
    unfolding xpath_parser_parse_def e1 e2 l[OF all] l[OF one]
    by (cases "lexer rest") (simp_all only: sum.case parse_xpath_index_digits[of types d ds])
  from 1 index_spec_first 3 4 show ?thesis by (intro conjI)
qed

theorem index_spec_uses_first_digit_witness:
  "is_DIGIT CHR ''1'' \<and> list_all is_DIGIT ''2'' \<and> ''2'' \<noteq> [] \<and>
   lexer ''[12]'' = Inr [LSQB, DIGIT ''1'', DIGIT ''2'', RSQB] \<and>
   index_spec [''1'', ''2''] = 1 \<and>
   xpath_parser_parse example_types ''/[12]A'' = xpath_parser_parse example_types ''/[1]A'' \<and>
   xpath_parser_parse example_types ''/[1]A'' =
     Inr [\<lparr>ast_class = NodeClass ''A'', parent_field = None, parent_index = Some 1, anywhere = False\<rparr>]"
proof -
  have d: "is_DIGIT CHR ''1''" and ds: "list_all is_DIGIT ''2''" and ne: "''2'' \<noteq> []"
    by (simp_all add: is_DIGIT_def)
  note t = index_spec_uses_first_digit[OF d ds ne, of "[]" example_types "''A''"]
  have v: "digit_value CHR ''1'' = 1" by (simp add: digit_value_def)
  have 1: "lexer ''[12]'' = Inr [LSQB, DIGIT ''1'', DIGIT ''2'', RSQB]"
    using t[THEN conjunct1] by simp
  have 2: "index_spec [''1'', ''2''] = 1"
    using t[THEN conjunct2, THEN conjunct1] v by simp
  have 3: "xpath_parser_parse example_types ''/[12]A'' = xpath_parser_parse example_types ''/[1]A''"
    using t[THEN conjunct2, THEN conjunct2, THEN conjunct2] by simp
  have 4: "xpath_parser_parse example_types ''/[1]A'' =
     Inr [\<lparr>ast_class = NodeClass ''A'', parent_field = None, parent_index = Some 1, anywhere = False\<rparr>]"
    by (simp add: example_types_def lexer_defs parser_defs)
  from d ds ne 1 2 3 4 show ?thesis by (intro conjI)
qed

text \<open>
  C7.  An empty index spec is not always the same as no index spec.  Alone in a segment,
  \<open>[]\<close> gives \<open>element\<close> a non-empty argument list, so the segment becomes an
  element of the base type \<open>ASTNode\<close> where the empty segment is a placeholder:
  \<open>/Root/[]/A\<close> asks for exactly one node between \<open>Root\<close> and \<open>A\<close>,
  \<open>/Root//A\<close> for any number, and the two differ on a child \<open>A\<close> of the root.
\<close>

theorem empty_index_spec_not_omission:
  "element [IntArg (index_spec [])] = (None, None, Some ASTNode) \<and>
   element [] = (None, None, None) \<and>
   xpath_parser_parse example_types ''/Root/[]/A'' =
     Inr [\<lparr>ast_class = NodeClass ''A'', parent_field = None, parent_index = None, anywhere = False\<rparr>,
          \<lparr>ast_class = ASTNode, parent_field = None, parent_index = None, anywhere = False\<rparr>,
          \<lparr>ast_class = NodeClass ''Root'', parent_field = None, parent_index = None, anywhere = False\<rparr>] \<and>
   xpath_parser_parse example_types ''/Root//A'' =
     Inr [\<lparr>ast_class = NodeClass ''A'', parent_field = None, parent_index = None, anywhere = True\<rparr>,
          \<lparr>ast_class = NodeClass ''Root'', parent_field = None, parent_index = None, anywhere = False\<rparr>] \<and>
   match_node_xpath middle_node
     [\<lparr>ast_class = NodeClass ''A'', parent_field = None, parent_index = None, anywhere = False\<rparr>,
      \<lparr>ast_class = ASTNode, parent_field = None, parent_index = None, anywhere = False\<rparr>,
      \<lparr>ast_class = NodeClass ''Root'', parent_field = None, parent_index = None, anywhere = False\<rparr>] = Inr False \<and>
   match_node_xpath middle_node
     [\<lparr>ast_class = NodeClass ''A'', parent_field = None, parent_index = None, anywhere = True\<rparr>,
      \<lparr>ast_class = NodeClass ''Root'', parent_field = None, parent_index = None, anywhere = False\<rparr>] = Inr True"
proof -
  have 1: "element [IntArg (index_spec [])] = (None, None, Some ASTNode)"
    by (simp add: element_def index_spec_def)
  have 2: "element [] = (None, None, None)" by (simp add: element_def)
  have 3: "xpath_parser_parse example_types ''/Root/[]/A'' =
     Inr [\<lparr>ast_class = NodeClass ''A'', parent_field = None, parent_index = None, anywhere = False\<rparr>,
          \<lparr>ast_class = ASTNode, parent_field = None, parent_index = None, anywhere = False\<rparr>,
          \<lparr>ast_class = NodeClass ''Root'', parent_field = None, parent_index = None, anywhere = False\<rparr>]"
    by (simp add: example_types_def lexer_defs parser_defs)
  have 4: "xpath_parser_parse example_types ''/Root//A'' =
     Inr [\<lparr>ast_class = NodeClass ''A'', parent_field = None, parent_index = None, anywhere = True\<rparr>,
          \<lparr>ast_class = NodeClass ''Root'', parent_field = None, parent_index = None, anywhere = False\<rparr>]"
    by (simp add: example_types_def lexer_defs parser_defs)
  have 5: "match_node_xpath middle_node
     [\<lparr>ast_class = NodeClass ''A'', parent_field = None, parent_index = None, anywhere = False\<rparr>,
      \<lparr>ast_class = ASTNode, parent_field = None, parent_index = None, anywhere = False\<rparr>,
      \<lparr>ast_class = NodeClass ''Root'', parent_field = None, parent_index = None, anywhere = False\<rparr>] = Inr False"
    by (simp add: match_node_element_def middle_node_def middle_subtree_def example_tree_def)
  have 6: "match_node_xpath middle_node
     [\<lparr>ast_class = NodeClass ''A'', parent_field = None, parent_index = None, anywhere = True\<rparr>,
      \<lparr>ast_class = NodeClass ''Root'', parent_field = None, parent_index = None, anywhere = False\<rparr>] = Inr True"
    by (simp add: match_node_element_def middle_node_def middle_subtree_def example_tree_def)
  from 1 2 3 4 5 6 show ?thesis by (intro conjI)
qed

text \<open>
  C7, as the code has it.  An index spec without digits yields \<open>- 1\<close>, which
  \<open>element\<close> turns into no index filter, so the index condition of the element test
  holds at every position.  When the segment also has a field spec or a class spec, its raw
  segment is the one of the same segment without the index spec.
\<close>

theorem empty_index_spec_is_no_filter:
  assumes "\<forall>a \<in> set (pre @ post). \<forall>i. a \<noteq> IntArg i"
  shows "index_spec [] = - 1 \<and>
         fst (snd (element (pre @ IntArg (index_spec []) # post))) = None \<and>
         (pre @ post \<noteq> [] \<longrightarrow> element (pre @ IntArg (index_spec []) # post) = element (pre @ post)) \<and>
         (parent_index e = None \<longrightarrow>
            match_node_element (Attached p f i t) e = match_node_element (Attached p f j t) e)"
proof -
  have pre: "\<forall>a \<in> set pre. \<forall>i. a \<noteq> IntArg i" and all: "\<forall>a \<in> set (pre @ post). \<forall>i. a \<noteq> IntArg i"
    using assms by simp_all
  have 1: "index_spec [] = - 1" by (simp add: index_spec_def)
  have l: "element_loop (pre @ IntArg (- 1) # post) (ASTNode, None, None) =
           element_loop (pre @ post) (ASTNode, None, None)"
    by (rule element_loop_empty_index[OF pre])
  obtain ty pf idx where e: "element_loop (pre @ post) (ASTNode, None, None) = (ty, pf, idx)"
    by (cases "element_loop (pre @ post) (ASTNode, None, None)")
  from element_loop_no_index[OF all, of ASTNode None None] e have idx: "idx = None" by simp
  have 2: "fst (snd (element (pre @ IntArg (index_spec []) # post))) = None"
    by (simp add: element_def 1 l e idx)
  have 3: "pre @ post \<noteq> [] \<longrightarrow> element (pre @ IntArg (index_spec []) # post) = element (pre @ post)"
    by (simp add: element_def 1 l)
  have 4: "parent_index e = None \<longrightarrow>
            match_node_element (Attached p f i t) e = match_node_element (Attached p f j t) e"
    by (cases "ast_class e") (simp_all add: match_node_element_def)
  from 1 2 3 4 show ?thesis by (intro conjI)
qed

theorem empty_index_spec_is_no_filter_witness:
  "[StrArg ''body''] @ [TypeArg (NodeClass ''B'')] \<noteq> [] \<and>
   element ([StrArg ''body''] @ IntArg (index_spec []) # [TypeArg (NodeClass ''B'')]) =
     (Some ''body'', None, Some (NodeClass ''B'')) \<and>
   element ([StrArg ''body''] @ [TypeArg (NodeClass ''B'')]) = (Some ''body'', None, Some (NodeClass ''B''))"
proof -
  have h: "\<forall>a \<in> set ([StrArg ''body''] @ [TypeArg (NodeClass ''B'')]). \<forall>i. a \<noteq> IntArg i" by simp
  have n: "[StrArg ''body''] @ [TypeArg (NodeClass ''B'')] \<noteq> []" by simp
  note t = empty_index_spec_is_no_filter[OF h]
  have v: "element ([StrArg ''body''] @ [TypeArg (NodeClass ''B'')]) = (Some ''body'', None, Some (NodeClass ''B''))"
    by (simp add: element_def)
  from t[THEN conjunct2, THEN conjunct2, THEN conjunct1] n
  have "element ([StrArg ''body''] @ IntArg (index_spec []) # [TypeArg (NodeClass ''B'')]) =
        element ([StrArg ''body''] @ [TypeArg (NodeClass ''B'')])" by (rule mp)
  with v have w: "element ([StrArg ''body''] @ IntArg (index_spec []) # [TypeArg (NodeClass ''B'')]) =
     (Some ''body'', None, Some (NodeClass ''B''))" by simp
  from n w v show ?thesis by (intro conjI)
qed

text \<open>
  C1.  For a path that compiled and whose first segment does not filter on the field
  \<open>child\<close>, and for a node of the tree with root \<open>TreeRoot t\<close>, the search from the
  root returns a list, and \<open>match\<close> answers true for the node exactly when the node is
  in that list.  The restriction is on the one filter that depends on the search: the root
  hangs in the field \<open>child\<close> of the helper while \<open>findall\<close> runs, and in no field
  when \<open>match\<close> looks at it (lemma \<open>helper_field_seen_by_findall\<close>).  Every path
  without field filters is covered, and so is every other field or index filter.
\<close>

theorem match_agrees_with_findall:
  assumes "ASTXpath_call types st p = (Inr r, st')" and "objects st' r = Some path"
    and "elements path = Some els" and "parent_field (hd els) \<noteq> Some ''child''"
    and "n \<in> set (dfs False (TreeRoot t))"
  shows "\<exists>found. ASTXpath_findall path (TreeRoot t) = Inr found \<and>
                 (ASTXpath_match path n = Inr True) = (n \<in> set found)"
proof -
  from ASTXpath_call_success[OF assms(1)] assms(2) obtain ers where
    ers: "xpath_parser_parse types (absolute_xpath p) = Inr ers"
    and path: "path = \<lparr>elements_reversed = Some ers, elements = Some (rev ers)\<rparr>" by auto
  have ne: "ers \<noteq> []" using ers by (rule xpath_parser_parse_nonempty)
  have els: "els = rev ers" using assms(3) by (simp add: path)
  have "parent_field (last ers) \<noteq> Some ''child''"
    using assms(4) ne by (simp add: els hd_rev)
  from match_findall_agree[OF ne this assms(5)] show ?thesis
    by (simp add: path ASTXpath_findall_def ASTXpath_match_def)
qed

theorem match_agrees_with_findall_witness:
  "ASTXpath_call example_types initial_state ''A//Root'' = (Inr 0, example_state) \<and>
   objects example_state 0 = Some example_path \<and>
   inner_node \<in> set (dfs False (TreeRoot example_tree)) \<and>
   ASTXpath_findall example_path (TreeRoot example_tree) = Inr [inner_node] \<and>
   ASTXpath_match example_path inner_node = Inr True"
proof -
  have n: "inner_node \<in> set (dfs False (TreeRoot example_tree))" by (simp add: example_nodes)
  have f: "parent_field (hd
     [\<lparr>ast_class = NodeClass ''A'', parent_field = None, parent_index = None, anywhere = True\<rparr>,
      \<lparr>ast_class = NodeClass ''Root'', parent_field = None, parent_index = None, anywhere = True\<rparr>])
     \<noteq> Some ''child''" by simp
  from match_agrees_with_findall[OF example_call example_object example_elements f n]
  obtain found where f: "ASTXpath_findall example_path (TreeRoot example_tree) = Inr found"
    and m: "(ASTXpath_match example_path inner_node = Inr True) = (inner_node \<in> set found)"
    by (elim exE conjE)
  from f have "found = [inner_node]" by (simp add: example_findall)
  with m have "ASTXpath_match example_path inner_node = Inr True" by simp
  with example_call example_object n example_findall show ?thesis by (intro conjI)
qed



end
